theory Spec2Isabelle
  imports Main "HOL-Library.Word"
begin

unbundle bit_operations_syntax

section \<open>Data model\<close>

text \<open>
  Go's \<open>int16\<close> and \<open>byte\<close> are fixed-width machine integers. They are modelled as
  words; the signed reading of an \<open>int16\<close> is \<open>sint\<close>, its comparison with zero is
  \<open><s\<close>, its right shift \<open>>>\<close> is the arithmetic shift \<open>signed_drop_bit\<close>, and
  unary minus and \<open>+\<close> wrap around as they do in Go.
\<close>

type_synonym int16 = "16 word"
type_synonym byte = "8 word"

text \<open>\<open>type AudioFormat string\<close> with its four constants.\<close>

type_synonym AudioFormat = string

definition FormatG729 :: AudioFormat where "FormatG729 = ''g729''"
definition FormatULaw :: AudioFormat where "FormatULaw = ''ulaw''"
definition FormatALaw :: AudioFormat where "FormatALaw = ''alaw''"
definition FormatSLIN :: AudioFormat where "FormatSLIN = ''slin''"

text \<open>
  Errors. The five package-level sentinels made by \<open>errors.New\<close> are constructors of their
  own. \<open>Errorf msg\<close> is the value of \<open>fmt.Errorf(msg)\<close> without a \<open>%w\<close> verb,
  \<open>Wrapped prefix err\<close> the value of \<open>fmt.Errorf(prefix + ": %w", err)\<close>, \<open>io_EOF\<close> is
  \<open>io.EOF\<close>, \<open>External msg\<close> an error produced by a library outside the package
  (the operating system, the WAV decoder, a writer), and \<open>RuntimePanic\<close> a run-time
  panic (a slice bound out of range).
\<close>

datatype error =
    ErrInvalidFormat
  | ErrUnsupportedFormat
  | ErrInvalidInput
  | ErrInvalidOutput
  | ErrCodecNotAvailable
  | Errorf string
  | Wrapped string error
  | io_EOF
  | External string
  | RuntimePanic

text \<open>The text \<open>err.Error()\<close> prints.\<close>

fun Error :: "error \<Rightarrow> string" where
  "Error ErrInvalidFormat = ''invalid audio format''"
| "Error ErrUnsupportedFormat = ''unsupported format''"
| "Error ErrInvalidInput = ''invalid input file''"
| "Error ErrInvalidOutput = ''invalid output path''"
| "Error ErrCodecNotAvailable = ''codec not available''"
| "Error (Errorf msg) = msg"
| "Error (Wrapped prefix err) = prefix @ '': '' @ Error err"
| "Error io_EOF = ''EOF''"
| "Error (External msg) = msg"
| "Error RuntimePanic = ''runtime error: slice bounds out of range''"

text \<open>
  \<open>errors.Is(err, target)\<close> for a sentinel \<open>target\<close>: the chain of \<open>%w\<close> wrappers is
  followed until an error identical to the target is found.
\<close>

fun errors_Is :: "error \<Rightarrow> error \<Rightarrow> bool" where
  "errors_Is (Wrapped prefix err) target = (Wrapped prefix err = target \<or> errors_Is err target)"
| "errors_Is err target = (err = target)"

section \<open>Companding transforms\<close>

text \<open>
  The segment search of \<open>pcmToULaw\<close> and \<open>pcmToALaw\<close>:
  \<^verbatim>\<open>for temp > 0 { segment++; temp >>= 1 }\<close>
  with \<open>temp\<close> an \<open>int16\<close> and \<open>segment\<close> an \<open>int\<close> that never exceeds 15 here.
\<close>

function segment_loop :: "nat \<Rightarrow> int16 \<Rightarrow> nat" where
  "segment_loop segment temp =
     (if 0 <s temp then segment_loop (segment + 1) (signed_drop_bit 1 temp) else segment)"
  by pat_completeness auto
termination
proof (relation "measure (\<lambda>(segment, temp). nat (sint temp))")
  show "wf (measure (\<lambda>(segment, temp). nat (sint temp)))"
    by simp
next
  fix segment :: nat and temp :: int16
  assume "0 <s temp"
  then have pos: "0 < sint temp"
    by (simp add: word_sless_alt)
  have "sint (signed_drop_bit 1 temp) = sint temp div 2"
    by (simp add: sint_signed_drop_bit_eq drop_bit_eq_div)
  with pos show "((segment + 1, signed_drop_bit 1 temp), (segment, temp))
      \<in> measure (\<lambda>(segment, temp). nat (sint temp))"
    by simp
qed

declare segment_loop.simps [simp del]

definition pcmToULaw :: "int16 \<Rightarrow> byte" where
  "pcmToULaw pcm0 =
     (let sign = pcm0 <s 0;
          pcm1 = (if sign then - pcm0 else pcm0);
          pcm = pcm1 + 33;
          segment0 = segment_loop 0 (signed_drop_bit 7 pcm);
          segment = (if segment0 > 7 then 7 else segment0);
          quantization = signed_drop_bit (segment + 3) pcm AND 0x0F;
          ulaw0 = (of_nat (push_bit 4 segment) :: byte) OR ucast quantization;
          ulaw = (if sign then ulaw0 OR 0x80 else ulaw0)
      in NOT ulaw)"

definition pcmToALaw :: "int16 \<Rightarrow> byte" where
  "pcmToALaw pcm0 =
     (let sign = pcm0 <s 0;
          pcm1 = (if sign then - pcm0 else pcm0);
          pcm = pcm1 + 33;
          segment0 = segment_loop 0 (signed_drop_bit 7 pcm);
          segment = (if segment0 > 7 then 7 else segment0);
          quantization = signed_drop_bit (segment + 3) pcm AND 0x0F;
          alaw0 = (of_nat (push_bit 4 segment) :: byte) OR ucast quantization;
          alaw = (if sign then alaw0 OR 0x80 else alaw0)
      in alaw XOR 0x55)"

text \<open>
  Both transforms build the same byte from the sign, the segment and the quantization
  before their last step. \<open>compand_byte\<close> names that byte; it is used to relate the two
  transforms and is not a function of the source.
\<close>

definition compand_byte :: "int16 \<Rightarrow> byte" where
  "compand_byte pcm0 =
     (let sign = pcm0 <s 0;
          pcm1 = (if sign then - pcm0 else pcm0);
          pcm = pcm1 + 33;
          segment0 = segment_loop 0 (signed_drop_bit 7 pcm);
          segment = (if segment0 > 7 then 7 else segment0);
          quantization = signed_drop_bit (segment + 3) pcm AND 0x0F;
          b0 = (of_nat (push_bit 4 segment) :: byte) OR ucast quantization
      in if sign then b0 OR 0x80 else b0)"

section \<open>Format encoders\<close>

text \<open>
  An \<open>io.Writer\<close> is a sink with a state \<open>'w\<close>: \<open>Write\<close> takes the state and the bytes
  and returns the new state and the error, if any. Every caller in the package drops the
  byte count \<open>Write\<close> returns, so it is left out. A failing \<open>Write\<close> may still have changed
  the sink.
\<close>

type_synonym 'w Writer = "'w \<Rightarrow> byte list \<Rightarrow> 'w \<times> error option"

text \<open>\<open>bytes.Buffer\<close>, the sink of the package's tests: it appends and never fails.\<close>

definition buffer_Write :: "byte list Writer" where
  "buffer_Write buf p = (buf @ p, None)"

text \<open>
  A sink accepts all writes when no \<open>Write\<close> fails and each one appends its bytes to what
  the sink holds, read by \<open>contents\<close>.
\<close>

definition accepts_all :: "'w Writer \<Rightarrow> ('w \<Rightarrow> byte list) \<Rightarrow> bool" where
  "accepts_all write contents \<longleftrightarrow>
     (\<forall>w p. snd (write w p) = None \<and> contents (fst (write w p)) = contents w @ p)"

fun ULawEncoder_Encode :: "'w Writer \<Rightarrow> int16 list \<Rightarrow> 'w \<Rightarrow> 'w \<times> error option" where
  "ULawEncoder_Encode write [] w = (w, None)"
| "ULawEncoder_Encode write (sample # samples) w =
     (let ulawByte = pcmToULaw sample
      in case write w [ulawByte] of
           (w', Some err) \<Rightarrow> (w', Some err)
         | (w', None) \<Rightarrow> ULawEncoder_Encode write samples w')"

fun ALawEncoder_Encode :: "'w Writer \<Rightarrow> int16 list \<Rightarrow> 'w \<Rightarrow> 'w \<times> error option" where
  "ALawEncoder_Encode write [] w = (w, None)"
| "ALawEncoder_Encode write (sample # samples) w =
     (let alawByte = pcmToALaw sample
      in case write w [alawByte] of
           (w', Some err) \<Rightarrow> (w', Some err)
         | (w', None) \<Rightarrow> ALawEncoder_Encode write samples w')"

fun SLINEncoder_Encode :: "'w Writer \<Rightarrow> int16 list \<Rightarrow> 'w \<Rightarrow> 'w \<times> error option" where
  "SLINEncoder_Encode write [] w = (w, None)"
| "SLINEncoder_Encode write (sample # samples) w =
     (let bytes = [ucast (sample AND 0xFF) :: byte,
                   ucast (signed_drop_bit 8 sample AND 0xFF)]
      in case write w bytes of
           (w', Some err) \<Rightarrow> (w', Some err)
         | (w', None) \<Rightarrow> SLINEncoder_Encode write samples w')"

text \<open>The two bytes \<open>SLINEncoder.Encode\<close> writes for one sample.\<close>

definition slin_bytes :: "int16 \<Rightarrow> byte list" where
  "slin_bytes sample = [ucast (sample AND 0xFF), ucast (signed_drop_bit 8 sample AND 0xFF)]"

text \<open>
  Reading a byte stream back as consecutive little-endian pairs, low byte first. This is
  the reader's side of the SLIN layout, written from the format's description; the
  package has no SLIN decoder. A trailing odd byte is dropped.
\<close>

fun slin_decode :: "byte list \<Rightarrow> int16 list" where
  "slin_decode (lo # hi # rest) = (ucast lo OR push_bit 8 (ucast hi)) # slin_decode rest"
| "slin_decode _ = []"

subsection \<open>G.729 framing\<close>

text \<open>Go's builtin \<open>copy(dst, src)\<close>: the first \<open>min (len dst) (len src)\<close> elements of
  \<open>dst\<close> are overwritten; the value is the updated \<open>dst\<close>.\<close>

definition go_copy :: "'a list \<Rightarrow> 'a list \<Rightarrow> 'a list" where
  "go_copy dst src = take (length dst) src @ drop (length src) dst"

text \<open>
  The native \<open>bcg729Encoder\<close> is outside the package and is a parameter: from the channel
  context and a frame of samples it gives the new context, what it wrote into the
  10-byte \<open>output\<close> array and the \<open>bitStreamLength\<close> (a \<open>uint8\<close>).
\<close>

type_synonym 'c bcg729Encoder = "'c \<Rightarrow> int16 list \<Rightarrow> 'c \<times> byte list \<times> byte"

text \<open>One pass through the body of the loop of \<open>G729Encoder.Encode\<close>, for the frame that
  starts at index \<open>i\<close>. Slicing the 10-byte array beyond its end panics.\<close>

definition G729_encode_frame ::
  "'c bcg729Encoder \<Rightarrow> 'w Writer \<Rightarrow> int16 list \<Rightarrow> nat \<Rightarrow> 'c \<Rightarrow> 'w \<Rightarrow> 'c \<times> 'w \<times> error option" where
  "G729_encode_frame bcg729Encoder write samples i ctx w =
     (let frame = go_copy (replicate 80 0) (drop i samples)
      in case bcg729Encoder ctx frame of
           (ctx', output, bitStreamLength) \<Rightarrow>
             if bitStreamLength > 0 then
               if unat bitStreamLength > 10 then (ctx', w, Some RuntimePanic)
               else
                 (let encodedData = take (unat bitStreamLength) (go_copy (replicate 10 0) output)
                  in case write w encodedData of
                       (w', Some err) \<Rightarrow> (ctx', w', Some (Wrapped ''failed to write G.729 data'' err))
                     | (w', None) \<Rightarrow> (ctx', w', None))
             else (ctx', w, None))"

function G729_loop ::
  "'c bcg729Encoder \<Rightarrow> 'w Writer \<Rightarrow> int16 list \<Rightarrow> nat \<Rightarrow> 'c \<Rightarrow> 'w \<Rightarrow> 'c \<times> 'w \<times> error option" where
  "G729_loop bcg729Encoder write samples i ctx w =
     (if i < length samples then
        (case G729_encode_frame bcg729Encoder write samples i ctx w of
           (ctx', w', Some err) \<Rightarrow> (ctx', w', Some err)
         | (ctx', w', None) \<Rightarrow> G729_loop bcg729Encoder write samples (i + 80) ctx' w')
      else (ctx, w, None))"
  by pat_completeness auto
termination
  by (relation "measure (\<lambda>(bcg729Encoder, write, samples, i, ctx, w). length samples - i)") auto

declare G729_loop.simps [simp del]

text \<open>\<open>G729Encoder.Encode\<close>; the field \<open>encoder\<close> is the native handle, \<open>None\<close> for nil.\<close>

definition G729Encoder_Encode ::
  "'c bcg729Encoder \<Rightarrow> 'w Writer \<Rightarrow> 'c option \<Rightarrow> int16 list \<Rightarrow> 'w \<Rightarrow> 'c option \<times> 'w \<times> error option" where
  "G729Encoder_Encode bcg729Encoder write encoder samples w =
     (case encoder of
        None \<Rightarrow> (None, w, Some (Errorf ''encoder not initialized''))
      | Some ctx \<Rightarrow>
          (case G729_loop bcg729Encoder write samples 0 ctx w of
             (ctx', w', err) \<Rightarrow> (Some ctx', w', err)))"

text \<open>
  To observe what the native encoder is given, \<open>recording\<close> runs a codec and keeps, next
  to its context, the list of the frames submitted so far.
\<close>

definition recording :: "'c bcg729Encoder \<Rightarrow> ('c \<times> int16 list list) bcg729Encoder" where
  "recording bcg729Encoder = (\<lambda>(ctx, frames) frame.
     case bcg729Encoder ctx frame of
       (ctx', output, bitStreamLength) \<Rightarrow> ((ctx', frames @ [frame]), output, bitStreamLength))"

text \<open>
  The frames that loop cuts from \<open>samples\<close>, from index \<open>i\<close> on: a fresh frame of 80
  zeros with \<open>samples[i:]\<close> copied over it, every 80 samples.
\<close>

function G729_frames :: "int16 list \<Rightarrow> nat \<Rightarrow> int16 list list" where
  "G729_frames samples i =
     (if i < length samples
      then go_copy (replicate 80 0) (drop i samples) # G729_frames samples (i + 80)
      else [])"
  by pat_completeness auto
termination
  by (relation "measure (\<lambda>(samples, i). length samples - i)") auto

declare G729_frames.simps [simp del]

text \<open>A native encoder keeps to its interface when it never reports more than the 10
  bytes of the output array.\<close>

definition within_output :: "'c bcg729Encoder \<Rightarrow> bool" where
  "within_output bcg729Encoder \<longleftrightarrow>
     (\<forall>ctx frame. unat (snd (snd (bcg729Encoder ctx frame))) \<le> 10)"

text \<open>A stand-in codec for concrete runs: ten zero bytes for every frame.\<close>

definition silent_codec :: "unit bcg729Encoder" where
  "silent_codec ctx frame = (ctx, replicate 10 0, 10)"

section \<open>Codec registry\<close>

datatype 'c CodecEncoder =
    ULawEncoder
  | ALawEncoder
  | SLINEncoder
  | G729Encoder "'c option"

fun GetFormat :: "'c CodecEncoder \<Rightarrow> AudioFormat" where
  "GetFormat ULawEncoder = FormatULaw"
| "GetFormat ALawEncoder = FormatALaw"
| "GetFormat SLINEncoder = FormatSLIN"
| "GetFormat (G729Encoder encoder) = FormatG729"

definition IsValidFormat :: "AudioFormat \<Rightarrow> bool" where
  "IsValidFormat format \<longleftrightarrow>
     format = FormatG729 \<or> format = FormatULaw \<or> format = FormatALaw \<or> format = FormatSLIN"

definition GetSupportedFormats :: "AudioFormat list" where
  "GetSupportedFormats = [FormatG729, FormatULaw, FormatALaw, FormatSLIN]"

text \<open>
  \<open>NewG729Encoder\<close> has one body per build. Without cgo it always fails; with cgo it
  fails when \<open>initBcg729EncoderChannel\<close> returns nil, which is the parameter \<open>init\<close>.
\<close>

definition NewG729Encoder_nocgo :: "error + 'c CodecEncoder" where
  "NewG729Encoder_nocgo = Inl (Errorf ''G.729 encoding requires CGO and libbcg729 library'')"

definition NewG729Encoder_cgo :: "'c option \<Rightarrow> error + 'c CodecEncoder" where
  "NewG729Encoder_cgo init =
     (case init of
        None \<Rightarrow> Inl (Errorf ''failed to initialize G.729 encoder'')
      | Some encoder \<Rightarrow> Inr (G729Encoder (Some encoder)))"

text \<open>\<open>GetEncoder\<close>, with the build's \<open>NewG729Encoder\<close> as its first argument.\<close>

definition GetEncoder :: "(error + 'c CodecEncoder) \<Rightarrow> AudioFormat \<Rightarrow> error + 'c CodecEncoder" where
  "GetEncoder NewG729Encoder format =
     (if format = FormatG729 then
        (case NewG729Encoder of
           Inl err \<Rightarrow> Inl (Wrapped ''G.729 encoder not available'' err)
         | Inr encoder \<Rightarrow> Inr encoder)
      else if format = FormatULaw then Inr ULawEncoder
      else if format = FormatALaw then Inr ALawEncoder
      else if format = FormatSLIN then Inr SLINEncoder
      else Inl ErrUnsupportedFormat)"

section \<open>Reading WAV input\<close>

text \<open>
  The WAV decoder (\<open>youpy/go-wav\<close>) is outside the package. Its \<open>WavFormat\<close> struct and
  its \<open>Sample\<close> (an array of two \<open>int\<close> values, one per channel) are declared there.
\<close>

record WavFormat =
  AudioFormat :: "16 word"
  NumChannels :: "16 word"
  SampleRate :: "32 word"
  ByteRate :: "32 word"
  BlockAlign :: "16 word"
  BitsPerSample :: "16 word"

record Sample =
  Values :: "int \<times> int"

text \<open>
  What the decoder makes of an opened stream: the result of \<open>Format()\<close>, and the results
  of the successive calls of \<open>ReadSamples(1024)\<close>. A stream is finite: once the list is
  used up the decoder answers \<open>io.EOF\<close>.
\<close>

record WavReader =
  Format :: "error + WavFormat"
  ReadSamples :: "(error + Sample list) list"

text \<open>
  An \<open>io.Reader\<close> is either an \<open>*os.File\<close> or a reader of another dynamic type
  (\<open>bytes.Reader\<close>, \<open>bufio.Reader\<close>, an HTTP upload). Each carries what the decoder
  would make of its bytes.
\<close>

datatype Reader =
    os_File WavReader
  | other_Reader WavReader

text \<open>\<open>FileInfo\<close>, without its \<open>Duration\<close>, a \<open>float64\<close>.\<close>

record FileInfo =
  Path :: string
  Type :: string
  BitDepth :: int
  SampleRate :: int
  Channels :: int
  TotalSamples :: int
  Size :: int

text \<open>The read loop of \<open>ReadWAVSamples\<close>: batches are appended until \<open>io.EOF\<close>; any other
  error is returned.\<close>

fun read_loop :: "(error + Sample list) list \<Rightarrow> int16 list \<Rightarrow> error + int16 list" where
  "read_loop [] samples = Inr samples"
| "read_loop (Inl err # rest) samples = (if err = io_EOF then Inr samples else Inl err)"
| "read_loop (Inr sampleBatch # rest) samples =
     read_loop rest (samples @ map (\<lambda>s. of_int (fst (Values s))) sampleBatch)"

definition ReadWAVSamples :: "Reader \<Rightarrow> error + (int16 list \<times> FileInfo)" where
  "ReadWAVSamples reader =
     (case reader of
        other_Reader _ \<Rightarrow> Inl (Errorf ''reader must be *os.File for youpy/go-wav'')
      | os_File wavReader \<Rightarrow>
          (case Format wavReader of
             Inl err \<Rightarrow> Inl err
           | Inr format \<Rightarrow>
               if AudioFormat format \<noteq> 1 then Inl ErrInvalidFormat
               else if NumChannels format \<noteq> 1 then Inl ErrInvalidFormat
               else if WavFormat.SampleRate format \<noteq> 8000 then Inl ErrInvalidFormat
               else if BitsPerSample format \<noteq> 16 then Inl ErrInvalidFormat
               else
                 (case read_loop (ReadSamples wavReader) [] of
                    Inl err \<Rightarrow> Inl err
                  | Inr samples \<Rightarrow>
                      Inr (samples,
                           \<lparr>Path = [], Type = ''WAVE'',
                            BitDepth = uint (BitsPerSample format),
                            SampleRate = uint (WavFormat.SampleRate format),
                            Channels = uint (NumChannels format),
                            TotalSamples = int (length samples),
                            Size = 0\<rparr>))))"

section \<open>Transcoding orchestrator\<close>

text \<open>
  The file system as \<open>ValidateInput\<close> sees it: a path is absent, or names a file with the
  size \<open>os.Stat\<close> reports and the result of \<open>os.Open\<close>.
\<close>

record FileEntry =
  stat_Size :: int
  open_result :: "error + WavReader"

type_synonym FileSystem = "string \<rightharpoonup> FileEntry"

definition ValidateInput :: "FileSystem \<Rightarrow> string \<Rightarrow> error + FileInfo" where
  "ValidateInput fs inputPath =
     (case fs inputPath of
        None \<Rightarrow> Inl (Wrapped ''file not found'' (External ''no such file or directory''))
      | Some entry \<Rightarrow>
          (case open_result entry of
             Inl err \<Rightarrow> Inl (Wrapped ''failed to open file'' err)
           | Inr file \<Rightarrow>
               (case ReadWAVSamples (os_File file) of
                  Inl err \<Rightarrow> Inl (Wrapped ''invalid WAV file'' err)
                | Inr (samples, fileInfo) \<Rightarrow>
                    Inr (fileInfo\<lparr>Size := stat_Size entry, Path := inputPath\<rparr>))))"

text \<open>
  \<open>TranscodeFromReader\<close> up to and including the read of the samples. What follows a
  successful read (creating the output file, encoding into it, \<open>os.Stat\<close>, the result
  record) is the parameter \<open>finish\<close>.
\<close>

definition TranscodeFromReader ::
  "(error + 'c CodecEncoder) \<Rightarrow> ('c CodecEncoder \<Rightarrow> int16 list \<Rightarrow> FileInfo \<Rightarrow> error + 'r)
     \<Rightarrow> Reader \<Rightarrow> AudioFormat \<Rightarrow> error + 'r" where
  "TranscodeFromReader NewG729Encoder finish reader format =
     (if \<not> IsValidFormat format then Inl ErrUnsupportedFormat
      else
        (case GetEncoder NewG729Encoder format of
           Inl err \<Rightarrow> Inl (Wrapped ''failed to get encoder'' err)
         | Inr encoder \<Rightarrow>
             (case ReadWAVSamples reader of
                Inl err \<Rightarrow> Inl (Wrapped ''failed to read WAV samples'' err)
              | Inr (samples, fileInfo) \<Rightarrow> finish encoder samples fileInfo)))"

subsection \<open>Concrete inputs\<close>

text \<open>Streams used to run the definitions: a conformant mono, 8000 Hz, 16-bit PCM
  stream of three samples, and the same header with one field changed.\<close>

definition pcm_mono_8k_16 :: WavFormat where
  "pcm_mono_8k_16 =
     \<lparr>AudioFormat = 1, NumChannels = 1, SampleRate = 8000, ByteRate = 16000,
      BlockAlign = 2, BitsPerSample = 16\<rparr>"

definition wav_stream :: "WavFormat \<Rightarrow> WavReader" where
  "wav_stream format =
     \<lparr>Format = Inr format,
      ReadSamples = [Inr [\<lparr>Values = (0, 0)\<rparr>, \<lparr>Values = (100, 0)\<rparr>, \<lparr>Values = (- 100, 0)\<rparr>]]\<rparr>"

definition one_file :: "string \<Rightarrow> WavFormat \<Rightarrow> FileSystem" where
  "one_file path format =
     Map.empty(path \<mapsto> \<lparr>stat_Size = 50, open_result = Inr (wav_stream format)\<rparr>)"

section \<open>Properties of the companding transforms\<close>

lemma nat_bit3_clear: "n \<le> 7 \<Longrightarrow> \<not> bit (n::nat) 3"
  by (simp add: bit_iff_odd)

lemma segment_nibble_bit7: "n \<le> 7 \<Longrightarrow> \<not> bit (of_nat (push_bit 4 n) :: byte) 7"
  using nat_bit3_clear [of n] by (simp add: bit_of_nat_iff bit_push_bit_iff)

lemma quantization_bit7: "\<not> bit (ucast ((q::int16) AND 0x0F) :: byte) 7"
proof -
  have "(0x0F::int16) = mask 4"
    by (simp add: mask_eq_exp_minus_1)
  then show ?thesis
    by (simp add: bit_ucast_iff bit_and_iff bit_mask_iff)
qed

lemma bit7_of_0x80: "bit (0x80::byte) 7"
  by (simp add: bit_iff_odd)

lemma bit7_of_0x55: "\<not> bit (0x55::byte) 7"
  by (simp add: bit_iff_odd)

text \<open>Bit 7 of the composed byte is the sign of the sample and nothing else.\<close>

lemma compand_byte_bit7: "bit (compand_byte s) 7 \<longleftrightarrow> s <s 0"
proof -
  define pcm where "pcm = (if s <s 0 then - s else s) + 33"
  define segment0 where "segment0 = segment_loop 0 (signed_drop_bit 7 pcm)"
  define segment where "segment = (if segment0 > 7 then 7 else segment0)"
  define b0 where
    "b0 = (of_nat (push_bit 4 segment) :: byte)
            OR ucast (signed_drop_bit (segment + 3) pcm AND 0x0F)"
  have "segment \<le> 7"
    by (simp add: segment_def)
  then have b0: "\<not> bit b0 7"
    unfolding b0_def using segment_nibble_bit7 [of segment] quantization_bit7
    by (simp only: bit_or_iff) simp
  have "compand_byte s = (if s <s 0 then b0 OR 0x80 else b0)"
    by (simp add: compand_byte_def Let_def b0_def segment_def segment0_def pcm_def)
  then show ?thesis
    using b0 bit7_of_0x80 by (simp add: bit_or_iff)
qed

lemma pcmToULaw_compand: "pcmToULaw s = NOT (compand_byte s)"
  by (simp add: pcmToULaw_def compand_byte_def Let_def)

lemma pcmToALaw_compand: "pcmToALaw s = compand_byte s XOR 0x55"
  by (simp add: pcmToALaw_def compand_byte_def Let_def)

lemma pcmToULaw_bit7: "bit (pcmToULaw s) 7 \<longleftrightarrow> \<not> s <s 0"
  by (simp add: pcmToULaw_compand bit_not_iff compand_byte_bit7)

lemma pcmToALaw_bit7: "bit (pcmToALaw s) 7 \<longleftrightarrow> s <s 0"
  using bit7_of_0x55 by (simp add: pcmToALaw_compand bit_xor_iff compand_byte_bit7)

lemma sint_int16_range: "- 32768 \<le> sint (s::int16)" "sint (s::int16) < 32768"
  using sint_ge [of s] sint_lt [of s] by simp_all

text \<open>Negating an \<open>int16\<close> flips its sign, except at 0 and at the least value, which
  negation maps to themselves.\<close>

lemma int16_neg_flips_sign:
  assumes "s \<noteq> 0" and "s \<noteq> - 32768"
  shows "(- s <s 0) = (\<not> s <s (0::int16))"
proof -
  have nz: "sint s \<noteq> 0"
  proof
    assume "sint s = 0"
    then have "word_of_int (sint s) = (word_of_int 0 :: int16)"
      by simp
    then show False
      using assms(1) by simp
  qed
  have nm: "sint s \<noteq> - 32768"
  proof
    assume "sint s = - 32768"
    then have "word_of_int (sint s) = (word_of_int (- 32768) :: int16)"
      by simp
    then show False
      using assms(2) by simp
  qed
  have "sint (- s) = signed_take_bit 15 (- sint s)"
    by (simp add: sint_word_ariths)
  also have "\<dots> = - sint s"
    using sint_int16_range [of s] nm by (intro signed_take_bit_int_eq_self) simp_all
  finally show ?thesis
    using nz by (auto simp add: word_sless_alt)
qed

lemma min_int16_neg: "- (- 32768 :: int16) = - 32768"
  by simp

text \<open>
  Claim C1, as stated: for every nonzero \<open>int16\<close> sample \<open>s\<close> in \<open>[-32768, 32767]\<close>,
  \<open>pcmToULaw s \<noteq> pcmToULaw (-s)\<close> and \<open>pcmToALaw s \<noteq> pcmToALaw (-s)\<close>.
  It fails at \<open>s = -32768\<close>: the negation of the least \<open>int16\<close> wraps to itself, so both
  sides are the same call. The byte there is \<open>0x7B\<close> for \<mu>-law and \<open>0xD1\<close> for A-law.
\<close>

theorem pcm_sign_min_int16_counterexample:
  "(- 32768 :: int16) \<noteq> 0
   \<and> pcmToULaw (- 32768) = pcmToULaw (- (- 32768))
   \<and> pcmToALaw (- 32768) = pcmToALaw (- (- 32768))
   \<and> pcmToULaw (- 32768) = 0x7B \<and> pcmToALaw (- 32768) = 0xD1"
proof (intro conjI)
  show "(- 32768 :: int16) \<noteq> 0"
    by simp
  show "pcmToULaw (- 32768) = pcmToULaw (- (- 32768))"
    by (simp only: min_int16_neg)
  show "pcmToALaw (- 32768) = pcmToALaw (- (- 32768))"
    by (simp only: min_int16_neg)
  show "pcmToULaw (- 32768) = 0x7B"
    by code_simp
  show "pcmToALaw (- 32768) = 0xD1"
    by code_simp
qed

text \<open>
  Claim C1, amended: for every \<open>int16\<close> sample \<open>s\<close> other than 0 and -32768, the
  \<mu>-law bytes of \<open>s\<close> and \<open>-s\<close> differ, and so do their A-law bytes: the sign of
  the sample is bit 7 of the encoded byte.
\<close>

theorem pcm_sign_observable:
  assumes "s \<noteq> 0" and "s \<noteq> - 32768"
  shows "pcmToULaw s \<noteq> pcmToULaw (- s) \<and> pcmToALaw s \<noteq> pcmToALaw (- s)"
proof -
  have flip: "(- s <s 0) = (\<not> s <s 0)"
    using assms by (rule int16_neg_flips_sign)
  have "bit (pcmToULaw s) 7 \<noteq> bit (pcmToULaw (- s)) 7"
    by (simp add: pcmToULaw_bit7 flip)
  moreover have "bit (pcmToALaw s) 7 \<noteq> bit (pcmToALaw (- s)) 7"
    by (simp add: pcmToALaw_bit7 flip)
  ultimately show ?thesis
    by metis
qed

theorem pcm_sign_observable_witness:
  "(1000::int16) \<noteq> 0 \<and> (1000::int16) \<noteq> - 32768
   \<and> pcmToULaw 1000 \<noteq> pcmToULaw (- 1000) \<and> pcmToALaw 1000 \<noteq> pcmToALaw (- 1000)"
  using pcm_sign_observable [of 1000] by simp

text \<open>
  Claim C9: for every \<open>int16\<close> sample \<open>s\<close>, \<open>pcmToALaw s\<close> is the bitwise complement of
  \<open>pcmToULaw s\<close> XORed with \<open>0x55\<close>, that is, \<open>pcmToULaw s XOR pcmToALaw s = 0xAA\<close>; both
  are the same composed byte under two different final masks.
\<close>

theorem ulaw_alaw_differ_by_mask:
  "pcmToALaw s = NOT (pcmToULaw s) XOR 0x55
   \<and> pcmToULaw s XOR pcmToALaw s = 0xAA
   \<and> pcmToULaw s = NOT (compand_byte s) \<and> pcmToALaw s = compand_byte s XOR 0x55"
  by (simp add: pcmToULaw_compand pcmToALaw_compand)

section \<open>Properties of the format encoders\<close>

lemma accepts_allD:
  assumes "accepts_all write contents"
  shows "\<exists>w'. write w p = (w', None) \<and> contents w' = contents w @ p"
proof -
  from assms have "snd (write w p) = None" and "contents (fst (write w p)) = contents w @ p"
    by (simp_all add: accepts_all_def)
  then show ?thesis by (cases "write w p") simp
qed

lemma accepts_all_buffer: "accepts_all buffer_Write (\<lambda>buf. buf)"
  by (simp add: accepts_all_def buffer_Write_def)

lemma ULaw_accepting:
  assumes "accepts_all write contents"
  shows "snd (ULawEncoder_Encode write samples w) = None
         \<and> contents (fst (ULawEncoder_Encode write samples w)) = contents w @ map pcmToULaw samples"
proof (induction samples arbitrary: w)
  case Nil
  show ?case by simp
next
  case (Cons sample samples)
  from accepts_allD [OF assms, of w "[pcmToULaw sample]"]
  obtain w' where w': "write w [pcmToULaw sample] = (w', None)"
    and c: "contents w' = contents w @ [pcmToULaw sample]" by blast
  show ?case using Cons.IH [of w'] by (simp add: w' c)
qed

lemma ALaw_accepting:
  assumes "accepts_all write contents"
  shows "snd (ALawEncoder_Encode write samples w) = None
         \<and> contents (fst (ALawEncoder_Encode write samples w)) = contents w @ map pcmToALaw samples"
proof (induction samples arbitrary: w)
  case Nil
  show ?case by simp
next
  case (Cons sample samples)
  from accepts_allD [OF assms, of w "[pcmToALaw sample]"]
  obtain w' where w': "write w [pcmToALaw sample] = (w', None)"
    and c: "contents w' = contents w @ [pcmToALaw sample]" by blast
  show ?case using Cons.IH [of w'] by (simp add: w' c)
qed

lemma SLIN_accepting:
  assumes "accepts_all write contents"
  shows "snd (SLINEncoder_Encode write samples w) = None
         \<and> contents (fst (SLINEncoder_Encode write samples w)) = contents w @ concat (map slin_bytes samples)"
proof (induction samples arbitrary: w)
  case Nil
  show ?case by simp
next
  case (Cons sample samples)
  from accepts_allD [OF assms, of w "slin_bytes sample"]
  obtain w' where w': "write w (slin_bytes sample) = (w', None)"
    and c: "contents w' = contents w @ slin_bytes sample" by blast
  show ?case using Cons.IH [of w'] w' c by (simp add: slin_bytes_def)
qed

lemma length_concat_slin: "length (concat (map slin_bytes samples)) = 2 * length samples"
  by (induction samples) (simp_all add: slin_bytes_def)

lemma slin_bytes_rejoin:
  "ucast (ucast (s AND 0xFF) :: byte) OR push_bit 8 (ucast (ucast (signed_drop_bit 8 s AND 0xFF) :: byte)) = (s::int16)"
  (is "?lhs = s")
proof (rule bit_eqI)
  fix n
  assume n: "possible_bit TYPE(16 word) n"
  have m: "(0xFF::int16) = mask 8" by (simp add: mask_eq_exp_minus_1)
  show "bit ?lhs n = bit s n"
  proof (cases "n < 8")
    case True
    then show ?thesis unfolding m by (simp add: bit_simps)
  next
    case False
    then have "8 + (n - 8) = n" by simp
    with False n show ?thesis unfolding m by (auto simp add: bit_simps)
  qed
qed

lemma slin_decode_pairs: "slin_decode (concat (map slin_bytes samples)) = samples"
  by (induction samples) (simp_all add: slin_bytes_def slin_bytes_rejoin)

text \<open>
  Claim C4: for every list of \<open>N\<close> samples and every sink that accepts all writes,
  \<open>ULawEncoder.Encode\<close> and \<open>ALawEncoder.Encode\<close> each return no error and add exactly
  \<open>N\<close> bytes to the sink, the encoded samples in input order, and \<open>SLINEncoder.Encode\<close>
  returns no error and adds exactly \<open>2N\<close> bytes.
\<close>

theorem encode_output_length:
  assumes "accepts_all write contents"
  shows "(snd (ULawEncoder_Encode write samples w) = None
          \<and> contents (fst (ULawEncoder_Encode write samples w)) = contents w @ map pcmToULaw samples
          \<and> length (contents (fst (ULawEncoder_Encode write samples w)))
              = length (contents w) + length samples)
       \<and> (snd (ALawEncoder_Encode write samples w) = None
          \<and> contents (fst (ALawEncoder_Encode write samples w)) = contents w @ map pcmToALaw samples
          \<and> length (contents (fst (ALawEncoder_Encode write samples w)))
              = length (contents w) + length samples)
       \<and> (snd (SLINEncoder_Encode write samples w) = None
          \<and> length (contents (fst (SLINEncoder_Encode write samples w)))
              = length (contents w) + 2 * length samples)"
  using ULaw_accepting [OF assms, of samples w] ALaw_accepting [OF assms, of samples w]
    SLIN_accepting [OF assms, of samples w]
  by (simp add: length_concat_slin)

theorem encode_output_length_witness:
  "accepts_all buffer_Write (\<lambda>buf. buf)
   \<and> snd (ULawEncoder_Encode buffer_Write [0, 100, - 100, 1000, - 1000] []) = None
   \<and> length (fst (ULawEncoder_Encode buffer_Write [0, 100, - 100, 1000, - 1000] [])) = 5
   \<and> snd (ALawEncoder_Encode buffer_Write [0, 100, - 100, 1000, - 1000] []) = None
   \<and> length (fst (ALawEncoder_Encode buffer_Write [0, 100, - 100, 1000, - 1000] [])) = 5
   \<and> snd (SLINEncoder_Encode buffer_Write [0, 100, - 100, 1000, - 1000] []) = None
   \<and> length (fst (SLINEncoder_Encode buffer_Write [0, 100, - 100, 1000, - 1000] [])) = 10"
  using encode_output_length [OF accepts_all_buffer, of "[0, 100, - 100, 1000, - 1000]" "[]"]
    accepts_all_buffer
  by simp


text \<open>
  Claim C10: SLIN encoding is lossless and injective. For every sample list encoded into
  a sink that accepts all writes, reading the bytes added to the sink as consecutive
  little-endian pairs gives back the sample list; hence two sample lists that leave the
  same bytes in the sink are equal.
\<close>

theorem slin_round_trip:
  assumes "accepts_all write contents"
  shows "slin_decode (drop (length (contents w))
            (contents (fst (SLINEncoder_Encode write samples w)))) = samples
       \<and> (contents (fst (SLINEncoder_Encode write samples w))
            = contents (fst (SLINEncoder_Encode write samples' w)) \<longrightarrow> samples = samples')"
proof -
  have rt: "slin_decode (drop (length (contents w))
            (contents (fst (SLINEncoder_Encode write xs w)))) = xs" for xs
    using SLIN_accepting [OF assms, of xs w] by (simp add: slin_decode_pairs)
  show ?thesis
  proof (intro conjI impI)
    show "slin_decode (drop (length (contents w))
            (contents (fst (SLINEncoder_Encode write samples w)))) = samples"
      by (rule rt)
    assume "contents (fst (SLINEncoder_Encode write samples w))
            = contents (fst (SLINEncoder_Encode write samples' w))"
    then have "slin_decode (drop (length (contents w))
            (contents (fst (SLINEncoder_Encode write samples w))))
        = slin_decode (drop (length (contents w))
            (contents (fst (SLINEncoder_Encode write samples' w))))"
      by simp
    then show "samples = samples'"
      by (simp only: rt)
  qed
qed

theorem slin_round_trip_witness:
  "accepts_all buffer_Write (\<lambda>buf. buf)
   \<and> slin_decode (fst (SLINEncoder_Encode buffer_Write [0, 100, - 100, 1000, - 1000] []))
       = [0, 100, - 100, 1000, - 1000]
   \<and> fst (SLINEncoder_Encode buffer_Write [0, 100, - 100, 1000, - 1000] [])
       \<noteq> fst (SLINEncoder_Encode buffer_Write [0, 100] [])"
  using slin_round_trip [OF accepts_all_buffer, of "[]" "[0, 100, - 100, 1000, - 1000]" "[0, 100]"]
    accepts_all_buffer
  by simp

section \<open>Properties of the G.729 framing\<close>

lemma frames_count_step: "0 < (m::nat) \<Longrightarrow> Suc ((m - 80 + 79) div 80) = (m + 79) div 80"
proof (cases "80 \<le> m")
  case True
  define k where "k = m - 80"
  have "m = k + 80" using True by (simp add: k_def)
  then show ?thesis by simp
next
  case False
  assume "0 < m"
  with False have "(m + 79) div 80 = 1" by simp
  with False show ?thesis by simp
qed

lemma frames_cover: "(m::nat) \<le> 80 * ((m + 79) div 80)"
proof -
  have "m + 79 = 80 * ((m + 79) div 80) + (m + 79) mod 80" by simp
  moreover have "(m + 79) mod 80 \<le> 79" by simp
  ultimately show ?thesis by linarith
qed

lemma last_index_step:
  assumes "i + 80 < (n::nat)"
  shows "i + 80 + 80 * ((n - 1 - (i + 80)) div 80) = i + 80 * ((n - 1 - i) div 80)"
proof -
  define k where "k = n - 1 - (i + 80)"
  have "n - 1 - i = k + 80"
    using assms by (simp add: k_def)
  then have "(n - 1 - i) div 80 = k div 80 + 1"
    by simp
  then show ?thesis
    unfolding k_def [symmetric] by simp
qed

lemma short_tail:
  assumes "(n::nat) mod 80 \<noteq> 0"
  shows "(n - 1) div 80 = n div 80" and "(n + 79) div 80 = n div 80 + 1"
    and "n - 80 * (n div 80) = n mod 80"
proof -
  define q where "q = n div 80"
  define r where "r = n mod 80 - 1"
  have r: "r < 79" and n: "n = 80 * q + (r + 1)"
    using assms by (simp_all add: q_def r_def)
  show "(n - 1) div 80 = n div 80"
    using r by (simp add: n)
  have "n + 79 = 80 * (q + 1) + r"
    by (simp add: n)
  then have "(n + 79) div 80 = q + 1"
    using r by simp
  then show "(n + 79) div 80 = n div 80 + 1"
    by (simp add: q_def)
  show "n - 80 * (n div 80) = n mod 80"
    by (simp add: minus_mult_div_eq_mod)
qed

lemma go_copy_zero_frame:
  "go_copy (replicate 80 (0::int16)) src = take 80 src @ replicate (80 - length src) 0"
  by (simp add: go_copy_def)

lemma length_go_copy: "length (go_copy dst src) = length dst"
  by (simp add: go_copy_def)

lemma G729_encode_frame_recording:
  assumes wo: "within_output enc" and acc: "accepts_all write contents"
  shows "\<exists>ctx' w'. G729_encode_frame (recording enc) write samples i (ctx, frames) w
           = ((ctx', frames @ [go_copy (replicate 80 0) (drop i samples)]), w', None)"
proof -
  define frame where "frame = go_copy (replicate 80 0) (drop i samples)"
  obtain ctx' out n where e: "enc ctx frame = (ctx', out, n)"
    by (cases "enc ctx frame") auto
  from wo have "unat (snd (snd (enc ctx frame))) \<le> 10"
    by (simp add: within_output_def)
  then have n: "unat n \<le> 10"
    using e by simp
  from accepts_allD [OF acc, of w "take (unat n) (go_copy (replicate 10 0) out)"]
  obtain w' where w': "write w (take (unat n) (go_copy (replicate 10 0) out)) = (w', None)"
    by blast
  show ?thesis
    using e n w' by (simp add: G729_encode_frame_def recording_def Let_def frame_def [symmetric])
qed

lemma G729_loop_recording:
  assumes wo: "within_output enc" and acc: "accepts_all write contents"
  shows "\<exists>ctx' w'. G729_loop (recording enc) write samples i (ctx, frames) w
           = ((ctx', frames @ G729_frames samples i), w', None)"
proof (induction samples i arbitrary: ctx frames w rule: G729_frames.induct)
  case (1 samples i)
  show ?case
  proof (cases "i < length samples")
    case True
    from G729_encode_frame_recording [OF wo acc, of samples i ctx frames w]
    obtain ctx1 w1 where step: "G729_encode_frame (recording enc) write samples i (ctx, frames) w
           = ((ctx1, frames @ [go_copy (replicate 80 0) (drop i samples)]), w1, None)"
      by blast
    from "1.IH" [OF True, of ctx1 "frames @ [go_copy (replicate 80 0) (drop i samples)]" w1]
    obtain ctx' w' where rest: "G729_loop (recording enc) write samples (i + 80)
          (ctx1, frames @ [go_copy (replicate 80 0) (drop i samples)]) w1
           = ((ctx', (frames @ [go_copy (replicate 80 0) (drop i samples)]) @ G729_frames samples (i + 80)), w', None)"
      by blast
    have "G729_loop (recording enc) write samples i (ctx, frames) w
        = ((ctx', frames @ G729_frames samples i), w', None)"
      using True step rest
      by (simp add: G729_loop.simps [of _ _ samples i] G729_frames.simps [of samples i])
    then show ?thesis by blast
  next
    case False
    then show ?thesis
      by (simp add: G729_loop.simps [of _ _ samples i] G729_frames.simps [of samples i])
  qed
qed

lemma G729_frames_length80: "f \<in> set (G729_frames samples i) \<Longrightarrow> length f = 80"
proof (induction samples i rule: G729_frames.induct)
  case (1 samples i)
  then show ?case
    by (cases "i < length samples")
       (auto simp add: G729_frames.simps [of samples i] length_go_copy)
qed

lemma G729_frames_count: "length (G729_frames samples i) = (length samples - i + 79) div 80"
proof (induction samples i rule: G729_frames.induct)
  case (1 samples i)
  show ?case
  proof (cases "i < length samples")
    case True
    then have "0 < length samples - i"
      by simp
    from frames_count_step [OF this] have "Suc ((length samples - (i + 80) + 79) div 80) = (length samples - i + 79) div 80"
      by (simp add: diff_diff_left [symmetric] del: diff_diff_left)
    with True "1.IH" show ?thesis
      by (simp add: G729_frames.simps [of samples i])
  next
    case False
    then show ?thesis
      by (simp add: G729_frames.simps [of samples i])
  qed
qed

lemma G729_frames_concat:
  "concat (G729_frames samples i)
     = drop i samples @ replicate (80 * length (G729_frames samples i) - (length samples - i)) 0"
proof (induction samples i rule: G729_frames.induct)
  case (1 samples i)
  show ?case
  proof (cases "i < length samples")
    case True
    note lt = True
    show ?thesis
    proof (cases "i + 80 \<le> length samples")
      case True
      have d: "drop (i + 80) samples = drop 80 (drop i samples)"
        by (simp add: add.commute)
      have l: "80 * length (G729_frames samples (i + 80)) \<ge> length samples - (i + 80)"
        unfolding G729_frames_count by (rule frames_cover)
      have "concat (G729_frames samples i)
          = take 80 (drop i samples) @ concat (G729_frames samples (i + 80))"
        using lt True by (simp add: G729_frames.simps [of samples i] go_copy_zero_frame)
      also have "\<dots> = take 80 (drop i samples) @ drop 80 (drop i samples)
           @ replicate (80 * length (G729_frames samples (i + 80)) - (length samples - (i + 80))) 0"
        using "1.IH" [OF lt] by (simp only: d)
      also have "\<dots> = drop i samples
           @ replicate (80 * length (G729_frames samples (i + 80)) - (length samples - (i + 80))) 0"
        by (simp only: append_assoc [symmetric] append_take_drop_id)
      also have "80 * length (G729_frames samples (i + 80)) - (length samples - (i + 80))
          = 80 * length (G729_frames samples i) - (length samples - i)"
      proof -
        have fr: "length (G729_frames samples i) = Suc (length (G729_frames samples (i + 80)))"
          using lt by (simp add: G729_frames.simps [of samples i])
        have nm: "length samples - i = (length samples - (i + 80)) + 80"
          using True by simp
        show ?thesis
          unfolding fr nm by simp
      qed
      finally show ?thesis .
    next
      case False
      then have e: "G729_frames samples (i + 80) = []"
        by (simp add: G729_frames.simps [of samples "i + 80"])
      show ?thesis
        using lt False by (simp add: G729_frames.simps [of samples i] e go_copy_zero_frame)
    qed
  next
    case False
    then show ?thesis
      by (simp add: G729_frames.simps [of samples i])
  qed
qed

lemma G729_frames_last:
  "i < length samples \<Longrightarrow>
     last (G729_frames samples i)
       = go_copy (replicate 80 0) (drop (i + 80 * ((length samples - 1 - i) div 80)) samples)"
proof (induction samples i rule: G729_frames.induct)
  case (1 samples i)
  note lt = "1.prems"
  show ?case
  proof (cases "i + 80 < length samples")
    case True
    then have ne: "G729_frames samples (i + 80) \<noteq> []"
      by (simp add: G729_frames.simps [of samples "i + 80"])
    have a: "i + 80 + 80 * ((length samples - 1 - (i + 80)) div 80)
           = i + 80 * ((length samples - 1 - i) div 80)"
      using True by (rule last_index_step)
    have "last (G729_frames samples i) = last (G729_frames samples (i + 80))"
      using lt ne by (simp add: G729_frames.simps [of samples i])
    also have "\<dots> = go_copy (replicate 80 0)
        (drop (i + 80 + 80 * ((length samples - 1 - (i + 80)) div 80)) samples)"
      using "1.IH" [OF lt True] .
    finally show ?thesis by (simp only: a)
  next
    case False
    then have e: "G729_frames samples (i + 80) = []"
      by (simp add: G729_frames.simps [of samples "i + 80"])
    have z: "(length samples - 1 - i) div 80 = 0"
      using lt False by simp
    show ?thesis
      using lt z by (simp add: G729_frames.simps [of samples i] e)
  qed
qed

lemma go_copy_short_tail:
  assumes "length src \<le> 80"
  shows "go_copy (replicate 80 (0::int16)) src = src @ replicate (80 - length src) 0"
  using assms by (simp add: go_copy_zero_frame)

lemma within_output_silent: "within_output silent_codec"
  by (simp add: within_output_def silent_codec_def)

text \<open>
  Claim C5: for every sample sequence whose length is not a multiple of 80, encoding
  with an initialised encoder, a native codec that keeps within its output array and a
  sink that accepts all writes returns no error and submits \<open>length div 80 + 1\<close> frames of
  exactly 80 samples to the native codec. Together the frames are the samples followed by
  \<open>80 - length mod 80\<close> zeros, and the last frame is the tail of the samples followed by
  those zeros: the tail is padded with silence, neither truncated nor refused.
\<close>

theorem G729_pads_final_frame:
  assumes "within_output enc" and "accepts_all write contents"
    and "length samples mod 80 \<noteq> 0"
  shows "\<exists>ctx' frames w'.
     G729Encoder_Encode (recording enc) write (Some (ctx, [])) samples w
       = (Some (ctx', frames), w', None)
     \<and> length frames = length samples div 80 + 1
     \<and> (\<forall>f \<in> set frames. length f = 80)
     \<and> concat frames = samples @ replicate (80 - length samples mod 80) 0
     \<and> last frames = drop (80 * (length samples div 80)) samples
                        @ replicate (80 - length samples mod 80) 0"
proof -
  define n where "n = length samples"
  define q where "q = n div 80"
  define r where "r = n mod 80"
  have nqr: "n = 80 * q + r" and r80: "r < 80"
    by (simp_all add: q_def r_def)
  from G729_loop_recording [OF assms(1,2), of samples 0 ctx "[]" w]
  obtain ctx' w' where run: "G729_loop (recording enc) write samples 0 (ctx, []) w
      = ((ctx', G729_frames samples 0), w', None)"
    by auto
  have pos: "0 < length samples"
  proof (rule ccontr)
    assume "\<not> 0 < length samples"
    then have "length samples = 0"
      by simp
    then have "length samples mod 80 = 0"
      by (simp only: mod_0)
    with assms(3) show False
      by contradiction
  qed
  have enc: "G729Encoder_Encode (recording enc) write (Some (ctx, [])) samples w
       = (Some (ctx', G729_frames samples 0), w', None)"
    by (simp add: G729Encoder_Encode_def run)
  have cnt: "length (G729_frames samples 0) = length samples div 80 + 1"
    by (simp only: G729_frames_count diff_zero short_tail(2) [OF assms(3)])
  have len: "\<forall>f \<in> set (G729_frames samples 0). length f = 80"
    by (simp add: G729_frames_length80)
  have "80 * (q + 1) - n = 80 - r"
    using r80 by (simp add: nqr)
  then have pad: "80 * (length samples div 80 + 1) - length samples = 80 - length samples mod 80"
    by (simp only: q_def r_def n_def)
  have "concat (G729_frames samples 0)
      = drop 0 samples @ replicate (80 * length (G729_frames samples 0) - (length samples - 0)) 0"
    by (rule G729_frames_concat)
  then have cat: "concat (G729_frames samples 0)
      = samples @ replicate (80 - length samples mod 80) 0"
    by (simp only: cnt pad drop_0 diff_zero)
  have tail: "length (drop (80 * (length samples div 80)) samples) = length samples mod 80"
    by (simp only: length_drop short_tail(3) [OF assms(3)])
  have "r \<le> 80"
    using r80 by simp
  then have tail80: "length (drop (80 * (length samples div 80)) samples) \<le> 80"
    by (simp only: tail r_def n_def)
  have "last (G729_frames samples 0)
      = go_copy (replicate 80 0)
          (drop (0 + 80 * ((length samples - 1 - 0) div 80)) samples)"
    using pos by (rule G729_frames_last)
  also have "\<dots> = go_copy (replicate 80 0) (drop (80 * (length samples div 80)) samples)"
    by (simp only: add_0 diff_zero short_tail(1) [OF assms(3)])
  also have "\<dots> = drop (80 * (length samples div 80)) samples
        @ replicate (80 - length samples mod 80) 0"
    using go_copy_short_tail [OF tail80] by (simp only: tail)
  finally have lst: "last (G729_frames samples 0)
      = drop (80 * (length samples div 80)) samples @ replicate (80 - length samples mod 80) 0" .
  from enc cnt len cat lst show ?thesis
    by blast
qed

theorem G729_pads_final_frame_witness:
  "within_output silent_codec \<and> accepts_all buffer_Write (\<lambda>buf. buf)
   \<and> length [1, 2, 3 :: int16] mod 80 \<noteq> 0
   \<and> (\<exists>ctx' frames w'.
     G729Encoder_Encode (recording silent_codec) buffer_Write (Some ((), [])) [1, 2, 3] []
       = (Some (ctx', frames), w', None)
     \<and> length frames = 1
     \<and> (\<forall>f \<in> set frames. length f = 80)
     \<and> concat frames = [1, 2, 3] @ replicate 77 0
     \<and> last frames = [1, 2, 3] @ replicate 77 0)"
  using G729_pads_final_frame [OF within_output_silent accepts_all_buffer, of "[1, 2, 3]" "()" "[]"]
    within_output_silent accepts_all_buffer
  by simp


section \<open>Properties of the codec registry\<close>

lemmas Format_defs = FormatG729_def FormatULaw_def FormatALaw_def FormatSLIN_def

text \<open>
  Claim C6: whatever the build's \<open>NewG729Encoder\<close> does, \<open>GetEncoder\<close> succeeds for each of
  the formats ULaw, ALaw and SLIN and returns an encoder whose \<open>GetFormat\<close> is the
  requested format; for every value that is none of the four format constants, such as
  the string \<open>invalid\<close>, it fails with \<open>ErrUnsupportedFormat\<close>.
\<close>

theorem GetEncoder_formats:
  "(format \<in> {FormatULaw, FormatALaw, FormatSLIN} \<longrightarrow>
      (\<exists>encoder. GetEncoder NewG729Encoder format = Inr encoder \<and> GetFormat encoder = format))
   \<and> GetEncoder NewG729Encoder FormatULaw = Inr ULawEncoder
   \<and> GetEncoder NewG729Encoder FormatALaw = Inr ALawEncoder
   \<and> GetEncoder NewG729Encoder FormatSLIN = Inr SLINEncoder
   \<and> (other \<notin> {FormatG729, FormatULaw, FormatALaw, FormatSLIN} \<longrightarrow>
        GetEncoder NewG729Encoder other = Inl ErrUnsupportedFormat)"
  by (auto simp add: GetEncoder_def Format_defs)

theorem GetEncoder_formats_witness:
  "FormatSLIN \<in> {FormatULaw, FormatALaw, FormatSLIN}
   \<and> (\<exists>encoder. GetEncoder (NewG729Encoder_nocgo :: error + unit CodecEncoder) FormatSLIN = Inr encoder
         \<and> GetFormat encoder = FormatSLIN)
   \<and> ''invalid'' \<notin> {FormatG729, FormatULaw, FormatALaw, FormatSLIN}
   \<and> GetEncoder (NewG729Encoder_nocgo :: error + unit CodecEncoder) ''invalid'' = Inl ErrUnsupportedFormat"
  using GetEncoder_formats [of FormatSLIN "NewG729Encoder_nocgo :: error + unit CodecEncoder" "''invalid''"]
  by (simp add: Format_defs)

text \<open>The cgo build fails in the same way when the native initialisation returns nil.\<close>

lemma G729_cgo_init_failure:
  "GetEncoder (NewG729Encoder_cgo None) FormatG729
     = Inl (Wrapped ''G.729 encoder not available'' (Errorf ''failed to initialize G.729 encoder''))"
  by (simp add: GetEncoder_def NewG729Encoder_cgo_def Format_defs)



section \<open>Properties of input validation\<close>

text \<open>
  Claim C2, as stated: validating a WAV with 2 channels, or 44100 Hz, or 8-bit depth
  fails with \<open>ErrInvalidInput\<close>. A two-channel file is rejected, but the error is
  \<open>ErrInvalidFormat\<close> wrapped as \<open>invalid WAV file: invalid audio format\<close>, and
  \<open>errors.Is(err, ErrInvalidInput)\<close> is false.
\<close>

theorem ValidateInput_stereo_counterexample:
  "ValidateInput (one_file ''input.wav'' (pcm_mono_8k_16\<lparr>NumChannels := 2\<rparr>)) ''input.wav''
     = Inl (Wrapped ''invalid WAV file'' ErrInvalidFormat)
   \<and> \<not> errors_Is (Wrapped ''invalid WAV file'' ErrInvalidFormat) ErrInvalidInput
   \<and> Error (Wrapped ''invalid WAV file'' ErrInvalidFormat) = ''invalid WAV file: invalid audio format''"
  by (simp add: ValidateInput_def one_file_def wav_stream_def ReadWAVSamples_def pcm_mono_8k_16_def)

text \<open>
  Claim C2, amended: validating an existing, readable WAV file whose header violates the
  invariant (channel count other than 1, or sample rate other than 8000, or bit depth
  other than 16; in particular 2 channels, 44100 Hz or 8 bits) fails with
  \<open>ErrInvalidFormat\<close>, wrapped by \<open>ValidateInput\<close> as \<open>invalid WAV file\<close>; the error is never
  \<open>ErrInvalidInput\<close>.
\<close>

theorem ValidateInput_rejects_with_ErrInvalidFormat:
  assumes "fs inputPath = Some entry" and "open_result entry = Inr file"
    and "Format file = Inr format"
    and "NumChannels format \<noteq> 1 \<or> WavFormat.SampleRate format \<noteq> 8000 \<or> BitsPerSample format \<noteq> 16"
  shows "ValidateInput fs inputPath = Inl (Wrapped ''invalid WAV file'' ErrInvalidFormat)
       \<and> errors_Is (Wrapped ''invalid WAV file'' ErrInvalidFormat) ErrInvalidFormat
       \<and> \<not> errors_Is (Wrapped ''invalid WAV file'' ErrInvalidFormat) ErrInvalidInput"
  using assms by (auto simp add: ValidateInput_def ReadWAVSamples_def)

theorem ValidateInput_rejects_with_ErrInvalidFormat_witness:
  "ValidateInput (one_file ''input.wav'' (pcm_mono_8k_16\<lparr>NumChannels := 2\<rparr>)) ''input.wav''
     = Inl (Wrapped ''invalid WAV file'' ErrInvalidFormat)
   \<and> ValidateInput (one_file ''input.wav'' (pcm_mono_8k_16\<lparr>WavFormat.SampleRate := 44100\<rparr>)) ''input.wav''
     = Inl (Wrapped ''invalid WAV file'' ErrInvalidFormat)
   \<and> ValidateInput (one_file ''input.wav'' (pcm_mono_8k_16\<lparr>BitsPerSample := 8\<rparr>)) ''input.wav''
     = Inl (Wrapped ''invalid WAV file'' ErrInvalidFormat)
   \<and> errors_Is (Wrapped ''invalid WAV file'' ErrInvalidFormat) ErrInvalidFormat"
  using ValidateInput_rejects_with_ErrInvalidFormat
      [of "one_file ''input.wav'' (pcm_mono_8k_16\<lparr>NumChannels := 2\<rparr>)" "''input.wav''"
          "\<lparr>stat_Size = 50, open_result = Inr (wav_stream (pcm_mono_8k_16\<lparr>NumChannels := 2\<rparr>))\<rparr>"
          "wav_stream (pcm_mono_8k_16\<lparr>NumChannels := 2\<rparr>)" "pcm_mono_8k_16\<lparr>NumChannels := 2\<rparr>"]
    ValidateInput_rejects_with_ErrInvalidFormat
      [of "one_file ''input.wav'' (pcm_mono_8k_16\<lparr>WavFormat.SampleRate := 44100\<rparr>)" "''input.wav''"
          "\<lparr>stat_Size = 50, open_result = Inr (wav_stream (pcm_mono_8k_16\<lparr>WavFormat.SampleRate := 44100\<rparr>))\<rparr>"
          "wav_stream (pcm_mono_8k_16\<lparr>WavFormat.SampleRate := 44100\<rparr>)" "pcm_mono_8k_16\<lparr>WavFormat.SampleRate := 44100\<rparr>"]
    ValidateInput_rejects_with_ErrInvalidFormat
      [of "one_file ''input.wav'' (pcm_mono_8k_16\<lparr>BitsPerSample := 8\<rparr>)" "''input.wav''"
          "\<lparr>stat_Size = 50, open_result = Inr (wav_stream (pcm_mono_8k_16\<lparr>BitsPerSample := 8\<rparr>))\<rparr>"
          "wav_stream (pcm_mono_8k_16\<lparr>BitsPerSample := 8\<rparr>)" "pcm_mono_8k_16\<lparr>BitsPerSample := 8\<rparr>"]
  by (simp add: one_file_def wav_stream_def pcm_mono_8k_16_def)

text \<open>
  Claim C8: for every reader whose dynamic type is not \<open>*os.File\<close>, \<open>ReadWAVSamples\<close>
  returns an error and no samples, whatever the reader's bytes decode to, and so
  \<open>TranscodeFromReader\<close> returns an error for it under every build and format. The same
  conformant mono, 8000 Hz, 16-bit stream is decoded when it comes from an \<open>*os.File\<close> and
  refused when it comes from another reader.
\<close>

theorem ReadWAVSamples_requires_os_File:
  "ReadWAVSamples (other_Reader wavReader) = Inl (Errorf ''reader must be *os.File for youpy/go-wav'')
   \<and> (\<exists>err. TranscodeFromReader NewG729Encoder finish (other_Reader wavReader) format = Inl err)
   \<and> ReadWAVSamples (os_File (wav_stream pcm_mono_8k_16))
       = Inr ([0, 100, - 100],
              \<lparr>Path = [], Type = ''WAVE'', BitDepth = 16, SampleRate = 8000, Channels = 1,
               TotalSamples = 3, Size = 0\<rparr>)
   \<and> ReadWAVSamples (other_Reader (wav_stream pcm_mono_8k_16))
       = Inl (Errorf ''reader must be *os.File for youpy/go-wav'')"
  by (auto simp add: ReadWAVSamples_def TranscodeFromReader_def wav_stream_def pcm_mono_8k_16_def
      split: sum.splits)

end
